theory Spec2Isabelle
  imports Main "HOL-Library.Sublist"
begin

section \<open>Python string primitives used by menu\_checker.py\<close>

text \<open>
  A Python \<^verbatim>\<open>str\<close> is modelled as a \<^typ>\<open>string\<close>, each \<^typ>\<open>char\<close> standing for one
  code point in the range 0..255. The tables below are those of Python 3 on that
  range: \<^verbatim>\<open>str.isspace\<close> holds at 9..13, 28..32, 133 and 160, and \<^verbatim>\<open>str.lower\<close>
  moves 65..90 and 192..222 (215 apart) up by 32 and leaves every other code point alone.
\<close>

definition isspace :: "char \<Rightarrow> bool" where
  "isspace c =
     (let n = (of_char c :: nat)
      in (9 \<le> n \<and> n \<le> 13) \<or> (28 \<le> n \<and> n \<le> 32) \<or> n = 133 \<or> n = 160)"

definition lower_char :: "char \<Rightarrow> char" where
  "lower_char c =
     (let n = (of_char c :: nat)
      in if (65 \<le> n \<and> n \<le> 90) \<or> (192 \<le> n \<and> n \<le> 222 \<and> n \<noteq> 215)
         then char_of (n + 32) else c)"

text \<open>\<^verbatim>\<open>s.lower()\<close>\<close>

definition lower :: "string \<Rightarrow> string" where
  "lower s = map lower_char s"

text \<open>\<^verbatim>\<open>s.strip()\<close>: whitespace is removed at both ends, nothing inside.\<close>

definition strip :: "string \<Rightarrow> string" where
  "strip s = rev (dropWhile isspace (rev (dropWhile isspace s)))"

text \<open>\<^verbatim>\<open>s.rstrip(chars)\<close>: trailing characters that belong to \<open>chars\<close> are removed.\<close>

definition rstrip :: "string \<Rightarrow> string \<Rightarrow> string" where
  "rstrip chars s = rev (dropWhile (\<lambda>c. c \<in> set chars) (rev s))"

text \<open>
  \<^verbatim>\<open>s.split()\<close> with no argument: leading whitespace is skipped, a token is a maximal
  run of characters that are not whitespace, and no token is empty.
\<close>

function split :: "string \<Rightarrow> string list" where
  "split s =
     (case dropWhile isspace s of
        [] \<Rightarrow> []
      | c # cs \<Rightarrow> (c # takeWhile (\<lambda>x. \<not> isspace x) cs) # split (dropWhile (\<lambda>x. \<not> isspace x) cs))"
  by pat_completeness auto
termination
proof (relation "measure length")
  show "wf (measure length)" by simp
next
  fix s :: string and c :: char and cs :: string
  assume eq: "dropWhile isspace s = c # cs"
  have "length (dropWhile (\<lambda>x. \<not> isspace x) cs) \<le> length cs"
    by (rule length_dropWhile_le)
  also have "length cs < length (dropWhile isspace s)"
    by (simp add: eq)
  also have "length (dropWhile isspace s) \<le> length s"
    by (rule length_dropWhile_le)
  finally show "(dropWhile (\<lambda>x. \<not> isspace x) cs, s) \<in> measure length"
    by simp
qed

declare split.simps [simp del]

text \<open>\<^verbatim>\<open>sep.join(xs)\<close>\<close>

fun join :: "string \<Rightarrow> string list \<Rightarrow> string" where
  "join sep [] = []"
| "join sep [x] = x"
| "join sep (x # y # ys) = x @ sep @ join sep (y # ys)"

text \<open>
  \<^verbatim>\<open>s.replace(old, new)\<close> where \<open>old\<close> and \<open>new\<close> are single characters, the only
  way the program calls it.
\<close>

definition replace :: "char \<Rightarrow> char \<Rightarrow> string \<Rightarrow> string" where
  "replace old new s = map (\<lambda>c. if c = old then new else c) s"

text \<open>\<^verbatim>\<open>w in s\<close> on strings: \<open>w\<close> occurs in \<open>s\<close> as a contiguous substring.\<close>

fun str_in :: "string \<Rightarrow> string \<Rightarrow> bool" where
  "str_in w [] = (w = [])"
| "str_in w (c # cs) = (prefix w (c # cs) \<or> str_in w cs)"

definition newline :: char where
  "newline = CHR 0x0A"

section \<open>The data model\<close>

record restaurant =
  restaurant_id :: string
  restaurant_name :: string
  restaurant_address :: string

text \<open>The attribute \<^verbatim>\<open>note\<close> of a Dish is the field \<open>dish_note\<close>.\<close>

record dish =
  name :: string
  info :: string
  dish_note :: string

record menu =
  restaurant :: string
  dishes :: "dish list"

text \<open>\<^verbatim>\<open>Dish(dish_name, dish_info, dish_note='none')\<close>\<close>

definition Dish :: "string \<Rightarrow> string \<Rightarrow> string \<Rightarrow> dish" where
  "Dish dish_name dish_info dish_note' = \<lparr>name = dish_name, info = dish_info, dish_note = dish_note'\<rparr>"

definition Dish_default :: "string \<Rightarrow> string \<Rightarrow> dish" where
  "Dish_default dish_name dish_info = Dish dish_name dish_info ''none''"

text \<open>\<^verbatim>\<open>Dish.__str__\<close>\<close>

definition Dish_str :: "dish \<Rightarrow> string" where
  "Dish_str d = (if info d \<noteq> [] then name d @ '': '' @ info d else name d)"

text \<open>\<^verbatim>\<open>Menu(restaurant)\<close> starts with no dishes.\<close>

definition Menu :: "string \<Rightarrow> menu" where
  "Menu r = \<lparr>restaurant = r, dishes = []\<rparr>"

text \<open>\<^verbatim>\<open>Menu.add_dish\<close> appends; the updated menu is returned.\<close>

definition add_dish :: "menu \<Rightarrow> dish \<Rightarrow> menu" where
  "add_dish m d = m\<lparr>dishes := dishes m @ [d]\<rparr>"

text \<open>\<^verbatim>\<open>Menu.__str__\<close>: the loop appends one line per dish to the header.\<close>

definition Menu_str :: "menu \<Rightarrow> string" where
  "Menu_str m =
     foldl (\<lambda>result d. result @ ''- '' @ Dish_str d @ [newline])
       (''*'' @ restaurant m @ ''*'' @ [newline]) (dishes m)"

text \<open>\<^verbatim>\<open>Menu.simplified_menu\<close>\<close>

definition simplified_menu :: "menu \<Rightarrow> string" where
  "simplified_menu m = restaurant m @ '': '' @ join ''; '' (map name (dishes m))"

section \<open>Normaliser, formatter and classifier\<close>

text \<open>\<^verbatim>\<open>normalize(text) = text.lower().strip()\<close>\<close>

definition normalize :: "string \<Rightarrow> string" where
  "normalize text = strip (lower text)"

text \<open>\<^verbatim>\<open>format_dish(info) = ' '.join(info.split()).replace('.', ';').rstrip(';')\<close>\<close>

definition format_dish :: "string \<Rightarrow> string" where
  "format_dish info_text = rstrip '';'' (replace (CHR ''.'') (CHR '';'') (join '' '' (split info_text)))"

text \<open>
  The inner loop of \<^verbatim>\<open>filter_menu_items\<close> over the danger words; its value is the
  flag \<^verbatim>\<open>has_danger_word\<close> when the loop is left (the \<^verbatim>\<open>break\<close> is the first branch).
\<close>

fun danger_loop :: "string list \<Rightarrow> string \<Rightarrow> string \<Rightarrow> bool" where
  "danger_loop [] dish_name dish_info = False"
| "danger_loop (word # ws) dish_name dish_info =
     (if str_in word dish_name \<or> str_in word dish_info then True
      else danger_loop ws dish_name dish_info)"

text \<open>The outer loop over the dishes, threading \<^verbatim>\<open>filtered_menu\<close>.\<close>

fun filter_loop :: "dish list \<Rightarrow> string list \<Rightarrow> string list \<Rightarrow> menu \<Rightarrow> menu" where
  "filter_loop [] safe_words danger_words filtered_menu = filtered_menu"
| "filter_loop (d # ds) safe_words danger_words filtered_menu =
     (let dish_name = normalize (name d);
          dish_info = normalize (info d)
      in if list_ex (\<lambda>word. str_in word dish_name) safe_words
            \<or> list_ex (\<lambda>word. str_in word dish_info) safe_words
         then filter_loop ds safe_words danger_words
                (add_dish filtered_menu (Dish (name d) (format_dish dish_info) ''has safe word''))
         else if \<not> danger_loop danger_words dish_name dish_info
         then filter_loop ds safe_words danger_words
                (add_dish filtered_menu (Dish (name d) (format_dish dish_info) ''has no danger words''))
         else filter_loop ds safe_words danger_words filtered_menu)"

definition filter_menu_items :: "menu \<Rightarrow> string list \<Rightarrow> string list \<Rightarrow> menu" where
  "filter_menu_items original_menu safe_words danger_words =
     filter_loop (dishes original_menu) safe_words danger_words (Menu (restaurant original_menu))"

section \<open>The menu flattener\<close>

text \<open>
  The provider's answer to a menu request, \<^verbatim>\<open>result['response']['menu']['menus']\<close>: a count
  and a list of menus; each menu has \<^verbatim>\<open>entries\<close> with a count and a list of sections; each
  section has a name and \<^verbatim>\<open>entries\<close> with a count and a list of dishes; a dish has a name
  and may have a description. A count is read from the answer and is not tied to the length of
  the list beside it.
\<close>

record json_dish =
  entry_name :: string
  entry_description :: "string option"

record json_section =
  section_name :: string
  section_entries_count :: int
  section_entries_items :: "json_dish list"

record json_menu =
  menu_entries_count :: int
  menu_entries_items :: "json_section list"

record json_menus =
  menus_count :: int
  menus_items :: "json_menu list"

text \<open>A venue of the search answer, \<^verbatim>\<open>result['response']['venues']\<close>.\<close>

record venue =
  venue_id :: string
  venue_name :: string
  venue_formattedAddress :: "string list"

text \<open>
  The two requests the program sends. The credentials, the date and the URL encoding are left
  out: a request is identified by what the program puts into it.
\<close>

datatype url = Search_url string string | Menu_url string

datatype json = Venues "venue list" | Menus json_menus

datatype error = HTTPError | URLError | KeyError | FileNotFoundError

datatype effect = Api_call url | Open_file string

text \<open>
  The outside world: what \<^verbatim>\<open>call_api\<close> answers to a request, and what \<^verbatim>\<open>readlines\<close> gives
  for a file name.
\<close>

record world =
  api :: "url \<Rightarrow> error + json"
  files :: "string \<Rightarrow> error + string list"

definition call_api :: "world \<Rightarrow> url \<Rightarrow> error + json" where
  "call_api w u = api w u"

definition build_restaurant_search_url :: "string \<Rightarrow> string \<Rightarrow> url" where
  "build_restaurant_search_url location query = Search_url location query"

definition build_menu_url :: "restaurant \<Rightarrow> url" where
  "build_menu_url r = Menu_url (restaurant_id r)"

definition Restaurant :: "string \<Rightarrow> string \<Rightarrow> string \<Rightarrow> restaurant" where
  "Restaurant rid rname raddress =
     \<lparr>restaurant_id = rid, restaurant_name = rname, restaurant_address = raddress\<rparr>"

text \<open>\<^verbatim>\<open>get_restaurants\<close>; an answer of the wrong shape has no key \<^verbatim>\<open>venues\<close>.\<close>

definition get_restaurants :: "json \<Rightarrow> error + restaurant list" where
  "get_restaurants result =
     (case result of
        Venues vs \<Rightarrow>
          Inr (map (\<lambda>v. Restaurant (venue_id v) (venue_name v)
                          (join [newline] (venue_formattedAddress v))) vs)
      | Menus _ \<Rightarrow> Inl KeyError)"

definition is_positive :: "int \<Rightarrow> bool" where
  "is_positive number = (number > 0)"

text \<open>
  The three nested loops of \<^verbatim>\<open>get_menu_items\<close>, innermost first. Each threads the pair of
  \<^verbatim>\<open>flat_menu\<close> and \<^verbatim>\<open>dish_set\<close>.
\<close>

fun dishes_loop :: "json_dish list \<Rightarrow> menu \<times> string set \<Rightarrow> menu \<times> string set" where
  "dishes_loop [] st = st"
| "dishes_loop (d # ds) (flat_menu, dish_set) =
     (let info_text = (case entry_description d of None \<Rightarrow> [] | Some x \<Rightarrow> x)
      in if entry_name d \<notin> dish_set
         then dishes_loop ds
                (add_dish flat_menu (Dish_default (entry_name d) (rstrip ''.'' (strip (lower info_text)))),
                 insert (entry_name d) dish_set)
         else dishes_loop ds (flat_menu, dish_set))"

fun sections_loop :: "json_section list \<Rightarrow> menu \<times> string set \<Rightarrow> menu \<times> string set" where
  "sections_loop [] st = st"
| "sections_loop (s # ss) st =
     (if str_in ''Drinks'' (section_name s) \<or> str_in ''Beverages'' (section_name s)
      then sections_loop ss st
      else if is_positive (section_entries_count s)
      then sections_loop ss (dishes_loop (section_entries_items s) st)
      else sections_loop ss st)"

fun menus_loop :: "json_menu list \<Rightarrow> menu \<times> string set \<Rightarrow> menu \<times> string set" where
  "menus_loop [] st = st"
| "menus_loop (m # ms) st =
     (if is_positive (menu_entries_count m)
      then menus_loop ms (sections_loop (menu_entries_items m) st)
      else menus_loop ms st)"

text \<open>Lines 104 to 121 of \<^verbatim>\<open>get_menu_items\<close>: what is done with the answer once it is there.\<close>

definition flat_menu_of :: "restaurant \<Rightarrow> json_menus \<Rightarrow> menu" where
  "flat_menu_of r result =
     fst (if is_positive (menus_count result)
          then menus_loop (menus_items result) (Menu (restaurant_name r), {})
          else (Menu (restaurant_name r), {}))"

text \<open>
  \<^verbatim>\<open>get_menu_items\<close>: the request, then the flattening. The value is the list of effects
  and either the exception that left the function or the menu.
\<close>

definition get_menu_items :: "world \<Rightarrow> restaurant \<Rightarrow> effect list \<times> (error + menu)" where
  "get_menu_items w r =
     (let menu_url = build_menu_url r
      in case call_api w menu_url of
           Inl e \<Rightarrow> ([Api_call menu_url], Inl e)
         | Inr (Venues _) \<Rightarrow> ([Api_call menu_url], Inl KeyError)
         | Inr (Menus result) \<Rightarrow> ([Api_call menu_url], Inr (flat_menu_of r result)))"

section \<open>The pipeline\<close>

definition TWILIO_MAXIMUM_MESSAGE_SIZE :: nat where
  "TWILIO_MAXIMUM_MESSAGE_SIZE = 1600"

definition is_too_large :: "string \<Rightarrow> bool" where
  "is_too_large message = (length message > TWILIO_MAXIMUM_MESSAGE_SIZE)"

definition fetch_menu_url :: "string \<Rightarrow> string" where
  "fetch_menu_url rname =
     ''places.singleplatform.com/'' @ join ''-'' (split (lower rname)) @ ''/menu''"

definition no_results_message :: string where
  "no_results_message =
     ''No Results Found: We could not find any restaurants with the text you sent. Please try again.''"

definition not_found_message :: string where
  "not_found_message =
     ''We could not find the restaurant you are looking for. Please try again later.''"

definition no_filtered_menu_message :: "restaurant \<Rightarrow> string" where
  "no_filtered_menu_message r =
     ''Unfortunately, we could not create a filtered menu for '' @ restaurant_name r
       @ ''. Try checking the online menu for more information. ''
       @ fetch_menu_url (restaurant_name r)"

definition no_menu_message :: "restaurant \<Rightarrow> string" where
  "no_menu_message r =
     ''Unfortunately, '' @ restaurant_name r
       @ '' does not have a menu. Visit the restaurant for a full menu!'' @ [newline]
       @ restaurant_address r"

text \<open>
  \<^verbatim>\<open>check_menu\<close>. Only \<^verbatim>\<open>HTTPError\<close> is caught by the two \<^verbatim>\<open>try\<close> blocks; any other
  exception leaves the function (\<open>Inl\<close>). The first component lists the requests sent and the
  files opened, in order.
\<close>

definition check_menu :: "world \<Rightarrow> string \<Rightarrow> string \<Rightarrow> effect list \<times> (error + string)" where
  "check_menu w query location =
     (let search_url = build_restaurant_search_url location query
      in case call_api w search_url of
           Inl e \<Rightarrow>
             ([Api_call search_url], if e = HTTPError then Inr not_found_message else Inl e)
         | Inr result \<Rightarrow>
             (case get_restaurants result of
                Inl e \<Rightarrow>
                  ([Api_call search_url], if e = HTTPError then Inr not_found_message else Inl e)
              | Inr restaurants \<Rightarrow>
                  if length restaurants = 0 then ([Api_call search_url], Inr no_results_message)
                  else
                    (case get_menu_items w (hd restaurants) of
                       (fx, Inl e) \<Rightarrow>
                         (Api_call search_url # fx,
                          if e = HTTPError then Inr (no_filtered_menu_message (hd restaurants))
                          else Inl e)
                     | (fx, Inr m) \<Rightarrow>
                         if length (dishes m) = 0
                         then (Api_call search_url # fx, Inr (no_menu_message (hd restaurants)))
                         else
                           (case files w ''meat_words.txt'' of
                              Inl e \<Rightarrow>
                                (Api_call search_url # fx @ [Open_file ''meat_words.txt''], Inl e)
                            | Inr lines \<Rightarrow>
                                (let vegetarian_words = [''vegan'', ''vegetarian''];
                                     meat_words = map strip lines;
                                     result = filter_menu_items m vegetarian_words meat_words
                                 in (Api_call search_url # fx @ [Open_file ''meat_words.txt''],
                                     Inr (if is_too_large (Menu_str result)
                                          then simplified_menu result
                                          else Menu_str result)))))))"

section \<open>Notions used to state the properties\<close>

text \<open>A token: a non-empty string without whitespace.\<close>

definition token :: "string \<Rightarrow> bool" where
  "token t = (t \<noteq> [] \<and> (\<forall>c\<in>set t. \<not> isspace c))"

text \<open>
  The input has two or more whitespace-separated tokens and the last one is made of periods
  and semicolons only.
\<close>

definition trailing_punct :: "string \<Rightarrow> bool" where
  "trailing_punct x =
     (2 \<le> length (split x) \<and> (\<forall>c\<in>set (last (split x)). c = CHR ''.'' \<or> c = CHR '';''))"

text \<open>
  The rendering as the specification words it: a header and one line
  \<^verbatim>\<open>- dish: description\<close> for every dish.
\<close>

definition bulleted_as_claimed :: "menu \<Rightarrow> string" where
  "bulleted_as_claimed m =
     ''*'' @ restaurant m @ ''*'' @ [newline]
       @ concat (map (\<lambda>d. ''- '' @ name d @ '': '' @ info d @ [newline]) (dishes m))"

text \<open>
  The flattener, told in lists. A section is a beverage section when its name contains
  \<^verbatim>\<open>Drinks\<close> or \<^verbatim>\<open>Beverages\<close>. The entries the innermost loop visits are those of the
  sections that are not beverage sections, under positive counts at the three levels.
  \<open>first_occurrences\<close> keeps, of a list of entries, each name's first entry.
\<close>

definition beverage_section :: "json_section \<Rightarrow> bool" where
  "beverage_section s = (str_in ''Drinks'' (section_name s) \<or> str_in ''Beverages'' (section_name s))"

definition dish_of_entry :: "json_dish \<Rightarrow> dish" where
  "dish_of_entry e =
     Dish_default (entry_name e)
       (rstrip ''.'' (strip (lower (case entry_description e of None \<Rightarrow> [] | Some x \<Rightarrow> x))))"

fun first_occurrences :: "string set \<Rightarrow> json_dish list \<Rightarrow> json_dish list" where
  "first_occurrences seen [] = []"
| "first_occurrences seen (e # es) =
     (if entry_name e \<in> seen then first_occurrences seen es
      else e # first_occurrences (insert (entry_name e) seen) es)"

definition section_entries :: "json_section \<Rightarrow> json_dish list" where
  "section_entries s =
     (if beverage_section s then []
      else if is_positive (section_entries_count s) then section_entries_items s else [])"

definition menu_entries :: "json_menu \<Rightarrow> json_dish list" where
  "menu_entries m =
     (if is_positive (menu_entries_count m) then concat (map section_entries (menu_entries_items m))
      else [])"

definition traversed_entries :: "json_menus \<Rightarrow> json_dish list" where
  "traversed_entries ms =
     (if is_positive (menus_count ms) then concat (map menu_entries (menus_items ms)) else [])"

definition all_entries :: "json_menus \<Rightarrow> json_dish list" where
  "all_entries ms =
     concat (map (\<lambda>m. concat (map section_entries_items (menu_entries_items m))) (menus_items ms))"

definition non_beverage_entries :: "json_menus \<Rightarrow> json_dish list" where
  "non_beverage_entries ms =
     concat (map (\<lambda>m. concat (map section_entries_items
                                 (filter (\<lambda>s. \<not> beverage_section s) (menu_entries_items m))))
               (menus_items ms))"

definition without_beverages :: "json_menus \<Rightarrow> json_menus" where
  "without_beverages ms =
     ms\<lparr>menus_items :=
          map (\<lambda>m. m\<lparr>menu_entries_items := filter (\<lambda>s. \<not> beverage_section s) (menu_entries_items m)\<rparr>)
            (menus_items ms)\<rparr>"

definition entries_named :: "string \<Rightarrow> json_menus \<Rightarrow> json_dish list" where
  "entries_named n ms = filter (\<lambda>e. entry_name e = n) (all_entries ms)"

definition dishes_named :: "string \<Rightarrow> menu \<Rightarrow> dish list" where
  "dishes_named n m = filter (\<lambda>d. name d = n) (dishes m)"

text \<open>
  What the classifier does with one dish: the list of the dishes it appends to the filtered
  menu for it, which has one element or none.
\<close>

definition kept :: "string list \<Rightarrow> string list \<Rightarrow> dish \<Rightarrow> dish list" where
  "kept safe_words danger_words d =
     (if list_ex (\<lambda>word. str_in word (normalize (name d)) \<or> str_in word (normalize (info d))) safe_words
      then [Dish (name d) (format_dish (normalize (info d))) ''has safe word'']
      else if list_ex (\<lambda>word. str_in word (normalize (name d)) \<or> str_in word (normalize (info d))) danger_words
      then []
      else [Dish (name d) (format_dish (normalize (info d))) ''has no danger words''])"

text \<open>
  A flattened menu to try the classifier on: a dish without any listed word, a dish with a
  danger word, and a dish with both a danger word and a safe word.
\<close>

definition veggie_burger :: dish where
  "veggie_burger = Dish_default ''Veggie Burger'' ''grilled patty''"

definition steak :: dish where
  "steak = Dish_default ''Steak'' ''grilled beef''"

definition vegan_bowl :: dish where
  "vegan_bowl = Dish_default ''Vegan Beef Bowl'' ''plant beef.  vegan''"

definition scenario_menu :: menu where
  "scenario_menu = \<lparr>restaurant = ''Green Leaf Cafe'', dishes = [veggie_burger, steak, vegan_bowl]\<rparr>"

text \<open>A menu with a dish that has no description.\<close>

definition salad_menu :: menu where
  "salad_menu = \<lparr>restaurant = ''Green Leaf Cafe'', dishes = [Dish_default ''Salad'' []]\<rparr>"

definition scenario_venue :: venue where
  "scenario_venue =
     \<lparr>venue_id = ''V1'', venue_name = ''Green Leaf Cafe'',
      venue_formattedAddress = [''1 Main St'', ''Irvine, CA'']\<rparr>"

text \<open>
  Answers of the provider to try the flattener and the pipeline on, and worlds that give them.
\<close>

definition mains_section :: json_section where
  "mains_section =
     \<lparr>section_name = ''Mains'', section_entries_count = 2,
      section_entries_items =
        [\<lparr>entry_name = ''Veggie Burger'', entry_description = Some ''Grilled patty.''\<rparr>,
         \<lparr>entry_name = ''Steak'', entry_description = Some ''Grilled beef.''\<rparr>]\<rparr>"

definition drinks_section :: json_section where
  "drinks_section =
     \<lparr>section_name = ''Cold Drinks'', section_entries_count = 2,
      section_entries_items =
        [\<lparr>entry_name = ''Cola'', entry_description = None\<rparr>,
         \<lparr>entry_name = ''Soup'', entry_description = Some ''Drinkable soup''\<rparr>]\<rparr>"

definition beverages_section :: json_section where
  "beverages_section =
     \<lparr>section_name = ''Hot Beverages'', section_entries_count = 1,
      section_entries_items =
        [\<lparr>entry_name = ''Veggie Burger'', entry_description = Some ''A burger, blended''\<rparr>]\<rparr>"

definition specials_section :: json_section where
  "specials_section =
     \<lparr>section_name = ''Specials'', section_entries_count = 2,
      section_entries_items =
        [\<lparr>entry_name = ''Steak'', entry_description = Some ''Another steak''\<rparr>,
         \<lparr>entry_name = ''Soup'', entry_description = None\<rparr>]\<rparr>"

definition response_of :: "json_section list \<Rightarrow> json_menus" where
  "response_of ss =
     \<lparr>menus_count = 1,
      menus_items = [\<lparr>menu_entries_count = int (length ss), menu_entries_items = ss\<rparr>]\<rparr>"

definition scenario_response :: json_menus where
  "scenario_response = response_of [mains_section, drinks_section, specials_section]"

definition other_response :: json_menus where
  "other_response = response_of [beverages_section, mains_section, specials_section]"

definition world_of :: "venue \<Rightarrow> json_menus \<Rightarrow> string list \<Rightarrow> world" where
  "world_of v ms lines =
     \<lparr>api = (\<lambda>u. case u of Search_url l q \<Rightarrow> Inr (Venues [v]) | Menu_url i \<Rightarrow> Inr (Menus ms)),
      files = (\<lambda>f. Inr lines)\<rparr>"

definition meat_lines :: "string list" where
  "meat_lines = [''beef '' @ [newline], ''pork'' @ [newline]]"

definition scenario_world :: world where
  "scenario_world = world_of scenario_venue scenario_response meat_lines"

definition other_world :: world where
  "other_world = world_of scenario_venue other_response meat_lines"

definition long_name :: string where
  "long_name = replicate 1600 (CHR ''x'')"

definition long_venue :: venue where
  "long_venue = \<lparr>venue_id = ''V2'', venue_name = long_name, venue_formattedAddress = []\<rparr>"

definition long_world :: world where
  "long_world = world_of long_venue scenario_response meat_lines"

definition empty_world :: world where
  "empty_world = \<lparr>api = (\<lambda>u. Inr (Venues [])), files = (\<lambda>f. Inl FileNotFoundError)\<rparr>"

definition cola_section :: json_section where
  "cola_section =
     \<lparr>section_name = ''Drinks'', section_entries_count = 2,
      section_entries_items =
        [\<lparr>entry_name = ''Cola'', entry_description = Some ''Classic.''\<rparr>,
         \<lparr>entry_name = ''Cola'', entry_description = Some ''Diet.''\<rparr>]\<rparr>"

definition drinks_response :: json_menus where
  "drinks_response = response_of [cola_section]"

definition drinks_world :: world where
  "drinks_world = world_of scenario_venue drinks_response meat_lines"

definition scenario_restaurant :: restaurant where
  "scenario_restaurant =
     Restaurant ''V1'' ''Green Leaf Cafe'' (''1 Main St'' @ [newline] @ ''Irvine, CA'')"

section \<open>Facts about the string primitives\<close>

lemma split_Nil [simp]: "split [] = []"
  by (simp add: split.simps)

lemma split_Cons [simp]:
  "split (c # cs) =
     (if isspace c then split cs
      else (c # takeWhile (\<lambda>x. \<not> isspace x) cs) # split (dropWhile (\<lambda>x. \<not> isspace x) cs))"
  by (simp add: split.simps[of "c # cs"] split.simps[of cs])

lemma split_tokens: "t \<in> set (split s) \<Longrightarrow> token t"
proof (induction s arbitrary: t rule: split.induct)
  case (1 s)
  show ?case
  proof (cases "dropWhile isspace s")
    case Nil
    with "1.prems" show ?thesis by (simp add: split.simps[of s])
  next
    case (Cons c cs)
    have nsp: "\<not> isspace c"
      using Cons hd_dropWhile[of isspace s] by fastforce
    from "1.prems" Cons
    have "t = c # takeWhile (\<lambda>x. \<not> isspace x) cs \<or> t \<in> set (split (dropWhile (\<lambda>x. \<not> isspace x) cs))"
      by (simp add: split.simps[of s])
    then show ?thesis
    proof
      assume "t = c # takeWhile (\<lambda>x. \<not> isspace x) cs"
      then show ?thesis using nsp by (auto simp: token_def dest: set_takeWhileD)
    next
      assume "t \<in> set (split (dropWhile (\<lambda>x. \<not> isspace x) cs))"
      then show ?thesis using "1.IH"[OF Cons] by simp
    qed
  qed
qed

lemma split_token_sp:
  assumes "token t" "isspace c"
  shows "split (t @ c # r) = t # split r"
proof -
  from assms(1) obtain a t' where t: "t = a # t'" and a: "\<not> isspace a"
    and t': "\<forall>x\<in>set t'. \<not> isspace x"
    by (cases t) (auto simp: token_def)
  have tw: "takeWhile (\<lambda>x. \<not> isspace x) (t' @ c # r) = t'"
    using t' assms(2) by simp
  have dw: "dropWhile (\<lambda>x. \<not> isspace x) (t' @ c # r) = c # r"
    using t' assms(2) by simp
  show ?thesis using a assms(2) by (simp add: t tw dw)
qed

lemma split_token: "token t \<Longrightarrow> split t = [t]"
proof -
  assume tk: "token t"
  then obtain a t' where t: "t = a # t'" and a: "\<not> isspace a"
    and t': "\<forall>x\<in>set t'. \<not> isspace x"
    by (cases t) (auto simp: token_def)
  have tw: "takeWhile (\<lambda>x. \<not> isspace x) t' = t'" using t' by simp
  have dw: "dropWhile (\<lambda>x. \<not> isspace x) t' = []" using t' by simp
  show ?thesis using a by (simp add: t tw dw)
qed

lemma isspace_space [simp]: "isspace (CHR '' '')"
  by (simp add: isspace_def)

lemma split_join: "\<forall>t\<in>set ts. token t \<Longrightarrow> split (join '' '' ts) = ts"
proof (induction "'' ''" ts rule: join.induct)
  case 1
  show ?case by simp
next
  case (2 x)
  then show ?case by (simp add: split_token)
next
  case (3 x y ys)
  have "split (x @ CHR '' '' # join '' '' (y # ys)) = x # split (join '' '' (y # ys))"
    using "3.prems" by (intro split_token_sp) simp_all
  then show ?case using 3 by simp
qed

lemma split_join_sp: "\<forall>t\<in>set ts. token t \<Longrightarrow> split (join '' '' ts @ '' '') = ts"
proof (induction "'' ''" ts rule: join.induct)
  case 1
  show ?case by simp
next
  case (2 x)
  have "split (x @ CHR '' '' # []) = x # split []"
    using "2.prems" by (intro split_token_sp) simp_all
  then show ?case by simp
next
  case (3 x y ys)
  have "split (x @ CHR '' '' # (join '' '' (y # ys) @ '' '')) = x # split (join '' '' (y # ys) @ '' '')"
    using "3.prems" by (intro split_token_sp) simp_all
  then show ?case using 3 by simp
qed

lemma join_snoc: "us \<noteq> [] \<Longrightarrow> join sep (us @ [l]) = join sep us @ sep @ l"
  by (induction sep us rule: join.induct) auto

lemma replace_join:
  "replace a b (join sep ts) = join (replace a b sep) (map (replace a b) ts)"
  by (induction sep ts rule: join.induct) (auto simp: replace_def)


lemma rstrip_append_keep:
  "\<exists>c\<in>set l. c \<notin> set chars \<Longrightarrow> rstrip chars (p @ l) = p @ rstrip chars l"
  by (auto simp: rstrip_def)

lemma rstrip_append_drop:
  assumes "set l \<subseteq> set chars"
  shows "rstrip chars (p @ l) = rstrip chars p"
proof -
  have "dropWhile (\<lambda>c. c \<in> set chars) (rev l @ rev p) = dropWhile (\<lambda>c. c \<in> set chars) (rev p)"
    using assms by (intro dropWhile_append2) auto
  then show ?thesis by (simp add: rstrip_def)
qed

lemma rstrip_snoc_keep: "c \<notin> set chars \<Longrightarrow> rstrip chars (p @ [c]) = p @ [c]"
  by (simp add: rstrip_def)

lemma rstrip_idem: "rstrip chars (rstrip chars s) = rstrip chars s"
  by (simp add: rstrip_def)

lemma set_rstrip: "set (rstrip chars s) \<subseteq> set s"
  by (auto simp: rstrip_def dest: set_dropWhileD)

lemma length_rstrip: "length (rstrip chars s) \<le> length s"
  using length_dropWhile_le[of "\<lambda>c. c \<in> set chars" "rev s"] by (simp add: rstrip_def)

lemma rstrip_nonempty: "\<exists>c\<in>set l. c \<notin> set chars \<Longrightarrow> rstrip chars l \<noteq> []"
  by (auto simp: rstrip_def)

lemma rstrip_Nil [simp]: "rstrip chars [] = []"
  by (simp add: rstrip_def)

lemma replace_id: "old \<notin> set s \<Longrightarrow> replace old new s = s"
  by (induction s) (auto simp: replace_def)

lemma set_replace: "old \<noteq> new \<Longrightarrow> old \<notin> set (replace old new s)"
  by (auto simp: replace_def)

lemma length_replace [simp]: "length (replace old new s) = length s"
  by (simp add: replace_def)

lemma token_replace: "token t \<Longrightarrow> \<not> isspace new \<Longrightarrow> token (replace old new t)"
  by (auto simp: token_def replace_def)

lemma format_dish_Nil: "format_dish [] = []"
  by (simp add: format_dish_def replace_def)

lemma format_dish_eq:
  "format_dish x = rstrip '';'' (join '' '' (map (replace (CHR ''.'') (CHR '';'')) (split x)))"
  by (simp add: format_dish_def replace_join) (simp add: replace_def)

lemma format_dish_no_dot: "CHR ''.'' \<notin> set (format_dish x)"
proof -
  have "CHR ''.'' \<notin> set (replace (CHR ''.'') (CHR '';'') (join '' '' (split x)))"
    by (rule set_replace) simp
  then show ?thesis
    using set_rstrip[of "'';''" "replace (CHR ''.'') (CHR '';'') (join '' '' (split x))"]
    by (auto simp: format_dish_def)
qed

lemma format_dish_fix:
  assumes "\<forall>t\<in>set vs. token t" and "format_dish x = join '' '' vs"
  shows "format_dish (format_dish x) = format_dish x"
proof -
  let ?y = "format_dish x"
  have sp: "split ?y = vs" using assms by (simp add: split_join)
  have "replace (CHR ''.'') (CHR '';'') ?y = ?y"
    by (rule replace_id) (rule format_dish_no_dot)
  moreover have "rstrip '';'' ?y = ?y"
    by (simp add: format_dish_def rstrip_idem)
  ultimately have "rstrip '';'' (replace (CHR ''.'') (CHR '';'') (join '' '' (split ?y))) = ?y"
    using assms(2) sp by simp
  then show ?thesis by (simp add: format_dish_def[of "format_dish x"])
qed

lemma format_dish_good:
  assumes "\<not> trailing_punct x"
  shows "format_dish (format_dish x) = format_dish x"
proof (cases "split x" rule: rev_cases)
  case Nil
  then have "format_dish x = []" by (simp add: format_dish_eq)
  then show ?thesis by (simp add: format_dish_Nil)
next
  case (snoc us l)
  let ?r = "replace (CHR ''.'') (CHR '';'')"
  have toks: "\<forall>t\<in>set (split x). token t" by (simp add: split_tokens)
  have semi: "\<not> isspace (CHR '';'')" by (simp add: isspace_def)
  have toks': "\<forall>t\<in>set (map ?r us). token t" "token (?r l)"
    using toks snoc semi by (auto intro: token_replace)
  show ?thesis
  proof (cases "\<forall>c\<in>set l. c = CHR ''.'' \<or> c = CHR '';''")
    case True
    with assms snoc have "us = []" by (cases us) (auto simp: trailing_punct_def)
    moreover have "set (?r l) \<subseteq> set '';''" using True by (auto simp: replace_def)
    ultimately have "format_dish x = []"
      using rstrip_append_drop[of "?r l" "'';''" "[]"] snoc by (simp add: format_dish_eq)
    then show ?thesis by (simp add: format_dish_Nil)
  next
    case False
    then obtain c where c: "c \<in> set l" "c \<noteq> CHR ''.''" "c \<noteq> CHR '';''" by auto
    then have "c \<in> set (?r l)" by (force simp: replace_def)
    with c have keep: "\<exists>c\<in>set (?r l). c \<notin> set '';''" by auto
    let ?m = "rstrip '';'' (?r l)"
    have m: "token ?m"
      using rstrip_nonempty[OF keep] set_rstrip[of "'';''" "?r l"] toks'(2)
      by (auto simp: token_def)
    have "format_dish x = join '' '' (map ?r us @ [?m])"
    proof (cases "us = []")
      case True
      then show ?thesis using snoc by (simp add: format_dish_eq)
    next
      case False
      then have "join '' '' (map ?r us @ [?r l]) = (join '' '' (map ?r us) @ '' '') @ ?r l"
        by (simp add: join_snoc)
      then have "format_dish x = (join '' '' (map ?r us) @ '' '') @ ?m"
        using snoc rstrip_append_keep[OF keep, of "join '' '' (map ?r us) @ '' ''"]
        by (simp add: format_dish_eq)
      then show ?thesis using False by (simp add: join_snoc)
    qed
    moreover have "\<forall>t\<in>set (map ?r us @ [?m]). token t" using toks'(1) m by auto
    ultimately show ?thesis by (rule format_dish_fix[rotated])
  qed
qed



lemma two_snoc: "2 \<le> length xs \<Longrightarrow> \<exists>us l. xs = us @ [l] \<and> us \<noteq> []"
  by (cases xs rule: rev_cases) auto

lemma format_dish_bad:
  assumes "trailing_punct x"
  shows "format_dish (format_dish x) \<noteq> format_dish x"
proof -
  let ?r = "replace (CHR ''.'') (CHR '';'')"
  have "2 \<le> length (split x)"
    using assms unfolding trailing_punct_def by (rule conjunct1)
  from two_snoc[OF this] obtain us l where snoc: "split x = us @ [l]" and us: "us \<noteq> []"
    by blast
  have l: "\<forall>c\<in>set l. c = CHR ''.'' \<or> c = CHR '';''"
    using assms by (simp add: trailing_punct_def snoc)
  have toks: "\<forall>t\<in>set (split x). token t" by (simp add: split_tokens)
  have semi: "\<not> isspace (CHR '';'')" by (simp add: isspace_def)
  have toks': "\<forall>t\<in>set (map ?r us). token t"
    using toks semi by (auto simp: snoc intro: token_replace)
  let ?j = "join '' '' (map ?r us)"
  have sub: "set (?r l) \<subseteq> set '';''" using l by (auto simp: replace_def)
  have "join '' '' (map ?r us @ [?r l]) = (?j @ '' '') @ ?r l"
    using us by (simp add: join_snoc)
  then have "format_dish x = rstrip '';'' ((?j @ '' '') @ ?r l)"
    by (simp only: format_dish_eq snoc map_append list.map)
  also have "\<dots> = rstrip '';'' (?j @ '' '')"
    by (rule rstrip_append_drop[OF sub])
  also have "\<dots> = ?j @ '' ''"
    using rstrip_snoc_keep[of "CHR '' ''" "'';''" ?j] by simp
  finally have fx: "format_dish x = ?j @ '' ''" .
  have "split (?j @ '' '') = map ?r us"
    using toks' by (rule split_join_sp)
  then have sp: "split (format_dish x) = map ?r us"
    by (simp only: fx)
  have "format_dish (format_dish x) = rstrip '';'' (?r ?j)"
    unfolding format_dish_def[of "format_dish x"] sp ..
  then have "length (format_dish (format_dish x)) \<le> length ?j"
    using length_rstrip[of "'';''" "?r ?j"] by simp
  also have "\<dots> < length (?j @ '' '')" by simp
  finally have "length (format_dish (format_dish x)) < length (format_dish x)"
    by (simp only: fx)
  then show ?thesis by (metis less_irrefl)
qed

section \<open>Facts about the classifier\<close>

lemma str_in_Nil [simp]: "str_in [] s"
  by (cases s) simp_all

lemma str_in_iff: "str_in w s \<longleftrightarrow> (\<exists>p q. s = p @ w @ q)"
proof (induction s)
  case Nil
  show ?case by auto
next
  case (Cons c cs)
  show ?case
  proof
    assume "str_in w (c # cs)"
    then consider "prefix w (c # cs)" | "str_in w cs" by auto
    then show "\<exists>p q. c # cs = p @ w @ q"
    proof cases
      case 1
      then obtain q where "c # cs = w @ q" by (auto simp: prefix_def)
      then have "c # cs = [] @ w @ q" by simp
      then show ?thesis by blast
    next
      case 2
      with Cons obtain p q where "cs = p @ w @ q" by blast
      then have "c # cs = (c # p) @ w @ q" by simp
      then show ?thesis by blast
    qed
  next
    assume "\<exists>p q. c # cs = p @ w @ q"
    then obtain p q where pq: "c # cs = p @ w @ q" by blast
    show "str_in w (c # cs)"
    proof (cases p)
      case Nil
      with pq have "prefix w (c # cs)" by (simp add: prefix_def)
      then show ?thesis by simp
    next
      case (Cons a p')
      with pq have "cs = p' @ w @ q" by simp
      then have "str_in w cs" using Cons.IH by blast
      then show ?thesis by simp
    qed
  qed
qed

lemma danger_loop_iff:
  "danger_loop ws n i \<longleftrightarrow> list_ex (\<lambda>word. str_in word n \<or> str_in word i) ws"
  by (induction ws) auto

lemma list_ex_or:
  "(list_ex P xs \<or> list_ex Q xs) = list_ex (\<lambda>x. P x \<or> Q x) xs"
  by (induction xs) auto

lemma filter_loop_eq:
  "filter_loop ds safe_words danger_words fm =
     fm\<lparr>dishes := dishes fm @ concat (map (kept safe_words danger_words) ds)\<rparr>"
proof (induction ds arbitrary: fm)
  case Nil
  show ?case by simp
next
  case (Cons d ds)
  show ?case
    by (simp add: Cons.IH Let_def add_dish_def kept_def danger_loop_iff list_ex_or)
qed

lemma dishes_filter_menu_items:
  "dishes (filter_menu_items m safe_words danger_words) =
     concat (map (kept safe_words danger_words) (dishes m))"
  by (simp add: filter_menu_items_def filter_loop_eq Menu_def)

lemma restaurant_filter_menu_items:
  "restaurant (filter_menu_items m safe_words danger_words) = restaurant m"
  by (simp add: filter_menu_items_def filter_loop_eq Menu_def)

lemma length_kept: "length (kept safe_words danger_words d) \<le> 1"
  by (simp add: kept_def)

lemma kept_names: "map name (kept safe_words danger_words d) = [name d] \<or> kept safe_words danger_words d = []"
  by (simp add: kept_def Dish_def)

lemma subseq_kept:
  "subseq (map name (concat (map (kept safe_words danger_words) ds))) (map name ds)"
proof (induction ds)
  case Nil
  show ?case by simp
next
  case (Cons d ds)
  from kept_names[of safe_words danger_words d] show ?case
  proof
    assume "map name (kept safe_words danger_words d) = [name d]"
    then show ?thesis using Cons by simp
  next
    assume "kept safe_words danger_words d = []"
    then show ?thesis using Cons by (simp add: list_emb_Cons)
  qed
qed

lemma strip_blank:
  assumes "\<forall>c\<in>set l. isspace c"
  shows "strip l = []"
proof -
  have dw: "dropWhile isspace l = []" using assms by simp
  show ?thesis unfolding strip_def dw by simp
qed

lemma kept_empty_danger:
  assumes "[] \<in> set danger_words"
  shows "kept safe_words danger_words d =
     (if \<exists>word\<in>set safe_words. str_in word (normalize (name d)) \<or> str_in word (normalize (info d))
      then [Dish (name d) (format_dish (normalize (info d))) ''has safe word''] else [])"
proof -
  have "list_ex (\<lambda>word. str_in word (normalize (name d)) \<or> str_in word (normalize (info d))) danger_words"
    unfolding list_ex_iff using assms by (intro bexI[of _ "[]"]) simp_all
  then show ?thesis by (simp add: kept_def list_ex_iff)
qed

lemma concat_map_if:
  "concat (map (\<lambda>d. if P d then [f d] else []) ds) = map f (filter P ds)"
  by (induction ds) auto

section \<open>Facts about the rendering and the flattener\<close>

lemma foldl_append_concat:
  "foldl (\<lambda>result d. result @ f d) acc ds = acc @ concat (map f ds)"
  by (induction ds arbitrary: acc) simp_all

lemma Menu_str_eq:
  "Menu_str m =
     ''*'' @ restaurant m @ ''*'' @ [newline]
       @ concat (map (\<lambda>d. ''- '' @ (if info d = [] then name d else name d @ '': '' @ info d) @ [newline])
                   (dishes m))"
proof -
  have "(\<lambda>(result :: string) d. result @ ''- '' @ Dish_str d @ [newline])
        = (\<lambda>result d. result @ (''- '' @ (if info d = [] then name d else name d @ '': '' @ info d) @ [newline]))"
    by (rule ext)+ (simp add: Dish_str_def)
  then show ?thesis
    by (simp add: Menu_str_def foldl_append_concat)
qed

lemma first_occurrences_append:
  "first_occurrences seen (xs @ ys) =
     first_occurrences seen xs @ first_occurrences (seen \<union> entry_name ` set xs) ys"
  by (induction xs arbitrary: seen) (auto simp: insert_absorb)

lemma dishes_loop_eq:
  "dishes_loop es (fm, seen) =
     (fm\<lparr>dishes := dishes fm @ map dish_of_entry (first_occurrences seen es)\<rparr>,
      seen \<union> entry_name ` set es)"
proof (induction es arbitrary: fm seen)
  case Nil
  show ?case by simp
next
  case (Cons e es)
  show ?case
    by (simp add: Cons.IH Let_def add_dish_def dish_of_entry_def insert_absorb)
qed

lemma sections_loop_step:
  "sections_loop (s # ss) st = sections_loop ss (dishes_loop (section_entries s) st)"
  by (simp add: section_entries_def beverage_section_def)

lemma sections_loop_eq:
  "sections_loop ss (fm, seen) =
     (fm\<lparr>dishes := dishes fm @ map dish_of_entry (first_occurrences seen (concat (map section_entries ss)))\<rparr>,
      seen \<union> entry_name ` set (concat (map section_entries ss)))"
proof (induction ss arbitrary: fm seen)
  case Nil
  show ?case by simp
next
  case (Cons s ss)
  show ?case
    by (simp only: sections_loop_step dishes_loop_eq Cons.IH)
       (simp add: first_occurrences_append image_Un Un_assoc)
qed

lemma menus_loop_step:
  "menus_loop (m # ms) (fm, seen) =
     menus_loop ms
       (fm\<lparr>dishes := dishes fm @ map dish_of_entry (first_occurrences seen (menu_entries m))\<rparr>,
        seen \<union> entry_name ` set (menu_entries m))"
proof (cases "is_positive (menu_entries_count m)")
  case True
  then have me: "menu_entries m = concat (map section_entries (menu_entries_items m))"
    by (simp add: menu_entries_def)
  show ?thesis
    using True by (simp only: me menus_loop.simps if_True sections_loop_eq)
next
  case False
  then have me: "menu_entries m = []"
    by (simp add: menu_entries_def)
  show ?thesis
    using False by (simp add: me)
qed

lemma menus_loop_eq:
  "menus_loop ms (fm, seen) =
     (fm\<lparr>dishes := dishes fm @ map dish_of_entry (first_occurrences seen (concat (map menu_entries ms)))\<rparr>,
      seen \<union> entry_name ` set (concat (map menu_entries ms)))"
proof (induction ms arbitrary: fm seen)
  case Nil
  show ?case by simp
next
  case (Cons m ms)
  show ?case
    by (simp only: menus_loop_step Cons.IH)
       (simp add: first_occurrences_append image_Un Un_assoc)
qed

lemma flat_menu_of_eq:
  "flat_menu_of r result =
     \<lparr>restaurant = restaurant_name r,
      dishes = map dish_of_entry (first_occurrences {} (traversed_entries result))\<rparr>"
  by (simp add: flat_menu_of_def menus_loop_eq traversed_entries_def Menu_def)

lemma filter_first_occurrences:
  "filter (\<lambda>e. entry_name e = n) (first_occurrences seen es) =
     (if n \<in> seen then []
      else case find (\<lambda>e. entry_name e = n) es of None \<Rightarrow> [] | Some e \<Rightarrow> [e])"
  by (induction es arbitrary: seen) auto

lemma set_first_occurrences: "set (first_occurrences seen es) \<subseteq> set es"
  by (induction es arbitrary: seen) auto

lemma name_dish_of_entry [simp]: "name (dish_of_entry e) = entry_name e"
  by (simp add: dish_of_entry_def Dish_default_def Dish_def)

lemma dishes_named_flat_menu_of:
  "dishes_named n (flat_menu_of r result) =
     (case find (\<lambda>e. entry_name e = n) (traversed_entries result) of
        None \<Rightarrow> []
      | Some e \<Rightarrow> [dish_of_entry e])"
  by (simp add: dishes_named_def flat_menu_of_eq filter_map comp_def filter_first_occurrences
      split: option.splits)

lemma get_menu_items_Menus:
  "call_api w (build_menu_url r) = Inr (Menus result) \<Longrightarrow>
     get_menu_items w r = ([Api_call (build_menu_url r)], Inr (flat_menu_of r result))"
  by (simp add: get_menu_items_def)

lemma concat_section_entries_filter:
  "concat (map section_entries (filter (\<lambda>s. \<not> beverage_section s) ss)) = concat (map section_entries ss)"
  by (induction ss) (auto simp: section_entries_def)

lemma traversed_entries_without_beverages:
  "traversed_entries (without_beverages ms) = traversed_entries ms"
proof -
  have "menu_entries (m\<lparr>menu_entries_items := filter (\<lambda>s. \<not> beverage_section s) (menu_entries_items m)\<rparr>)
          = menu_entries m" for m
    by (simp add: menu_entries_def concat_section_entries_filter)
  then show ?thesis
    by (simp add: traversed_entries_def without_beverages_def comp_def)
qed

lemma flat_menu_of_without_beverages:
  "flat_menu_of r (without_beverages ms) = flat_menu_of r ms"
  by (simp add: flat_menu_of_eq traversed_entries_without_beverages)

lemma set_traversed_entries: "set (traversed_entries ms) \<subseteq> set (non_beverage_entries ms)"
proof
  fix e assume "e \<in> set (traversed_entries ms)"
  then obtain m s where m: "m \<in> set (menus_items ms)" and s: "s \<in> set (menu_entries_items m)"
    and e: "e \<in> set (section_entries s)"
    by (auto simp: traversed_entries_def menu_entries_def split: if_splits)
  from e have "\<not> beverage_section s" "e \<in> set (section_entries_items s)"
    by (auto simp: section_entries_def split: if_splits)
  with m s show "e \<in> set (non_beverage_entries ms)"
    by (auto simp: non_beverage_entries_def)
qed

section \<open>C1: the formatter applied twice\<close>

text \<open>
  C1, as stated: \<open>format_dish (format_dish x) = format_dish x\<close> for every \<open>x\<close>. This fails
  at \<^verbatim>\<open>'a .'\<close>: the period becomes a semicolon, the semicolon is stripped, and the space before
  it stays, so the first pass gives \<^verbatim>\<open>'a '\<close> and the second gives \<^verbatim>\<open>'a'\<close>.
\<close>

theorem format_dish_twice_counterexample:
  "format_dish ''a .'' = ''a '' \<and> format_dish (format_dish ''a .'') = ''a'' \<and>
   format_dish (format_dish ''a .'') \<noteq> format_dish ''a .''"
  by (simp add: format_dish_def rstrip_def replace_def isspace_def)

text \<open>
  C1, amended: \<open>format_dish (format_dish x) = format_dish x\<close> holds exactly for the inputs
  that do not consist of two or more whitespace-separated tokens of which the last is made of
  periods and semicolons only.
\<close>

theorem format_dish_idempotent_iff:
  "format_dish (format_dish x) = format_dish x \<longleftrightarrow> \<not> trailing_punct x"
  using format_dish_good format_dish_bad by blast

theorem format_dish_idempotent_iff_witness:
  "\<not> trailing_punct '' Grilled  patty. '' \<and>
   format_dish (format_dish '' Grilled  patty. '') = format_dish '' Grilled  patty. '' \<and>
   format_dish '' Grilled  patty. '' = ''Grilled patty''"
proof -
  have tp: "\<not> trailing_punct '' Grilled  patty. ''"
    by (simp add: trailing_punct_def isspace_def)
  have "format_dish '' Grilled  patty. '' = ''Grilled patty''"
    by (simp add: format_dish_def rstrip_def replace_def isspace_def)
  with tp show ?thesis
    using format_dish_idempotent_iff [of "'' Grilled  patty. ''"] by simp
qed

section \<open>C2: safe words win\<close>

text \<open>
  C2: a dish of the menu whose normalised name or normalised description contains a safe word
  is kept, at its place, with the note \<^verbatim>\<open>has safe word\<close> and its normalised description
  formatted, whatever the danger words are. The dishes before it and after it are classified
  on their own.
\<close>

theorem safe_word_precedence:
  assumes "dishes m = pre @ d # post"
    and "\<exists>word\<in>set safe_words. str_in word (normalize (name d)) \<or> str_in word (normalize (info d))"
  shows "dishes (filter_menu_items m safe_words danger_words) =
           dishes (filter_menu_items (m\<lparr>dishes := pre\<rparr>) safe_words danger_words)
           @ [Dish (name d) (format_dish (normalize (info d))) ''has safe word'']
           @ dishes (filter_menu_items (m\<lparr>dishes := post\<rparr>) safe_words danger_words)"
proof -
  have "kept safe_words danger_words d = [Dish (name d) (format_dish (normalize (info d))) ''has safe word'']"
    using assms(2) by (simp add: kept_def list_ex_iff)
  then show ?thesis by (simp add: dishes_filter_menu_items assms(1))
qed

theorem safe_word_precedence_witness:
  "dishes scenario_menu = [veggie_burger, steak] @ vegan_bowl # [] \<and>
   (\<exists>word\<in>set [''vegan'', ''vegetarian''].
      str_in word (normalize (name vegan_bowl)) \<or> str_in word (normalize (info vegan_bowl))) \<and>
   (\<exists>word\<in>set [''beef''].
      str_in word (normalize (name vegan_bowl)) \<or> str_in word (normalize (info vegan_bowl))) \<and>
   dishes (filter_menu_items scenario_menu [''vegan'', ''vegetarian''] [''beef'']) =
     [Dish ''Veggie Burger'' ''grilled patty'' ''has no danger words'',
      Dish ''Vegan Beef Bowl'' ''plant beef; vegan'' ''has safe word'']"
proof -
  have pre: "dishes scenario_menu = [veggie_burger, steak] @ vegan_bowl # []"
    by (simp add: scenario_menu_def)
  have safe: "\<exists>word\<in>set [''vegan'', ''vegetarian''].
      str_in word (normalize (name vegan_bowl)) \<or> str_in word (normalize (info vegan_bowl))"
    by code_simp
  have danger: "\<exists>word\<in>set [''beef''].
      str_in word (normalize (name vegan_bowl)) \<or> str_in word (normalize (info vegan_bowl))"
    by code_simp
  have before: "dishes (filter_menu_items (scenario_menu\<lparr>dishes := [veggie_burger, steak]\<rparr>)
                  [''vegan'', ''vegetarian''] [''beef'']) =
                [Dish ''Veggie Burger'' ''grilled patty'' ''has no danger words'']"
    by code_simp
  have after: "dishes (filter_menu_items (scenario_menu\<lparr>dishes := []\<rparr>)
                  [''vegan'', ''vegetarian''] [''beef'']) = []"
    by code_simp
  have this_dish: "Dish (name vegan_bowl) (format_dish (normalize (info vegan_bowl))) ''has safe word''
      = Dish ''Vegan Beef Bowl'' ''plant beef; vegan'' ''has safe word''"
    by code_simp
  from safe_word_precedence [OF pre safe, of "[''beef'']"]
  have "dishes (filter_menu_items scenario_menu [''vegan'', ''vegetarian''] [''beef'']) =
     [Dish ''Veggie Burger'' ''grilled patty'' ''has no danger words'',
      Dish ''Vegan Beef Bowl'' ''plant beef; vegan'' ''has safe word'']"
    by (simp only: before after this_dish append.simps)
  with pre safe danger show ?thesis by (intro conjI)
qed

section \<open>C3: danger words drop a dish\<close>

text \<open>
  C3: a dish of the menu whose normalised name and description contain no safe word
  contributes nothing to the filtered menu if some danger word is a substring of its normalised
  name or description, and otherwise contributes itself, at its place, with the note
  \<^verbatim>\<open>has no danger words\<close> and its normalised description formatted.
\<close>

theorem danger_word_filtering:
  assumes "dishes m = pre @ d # post"
    and "\<not> (\<exists>word\<in>set safe_words. str_in word (normalize (name d)) \<or> str_in word (normalize (info d)))"
  shows "dishes (filter_menu_items m safe_words danger_words) =
           dishes (filter_menu_items (m\<lparr>dishes := pre\<rparr>) safe_words danger_words)
           @ (if \<exists>word\<in>set danger_words. str_in word (normalize (name d)) \<or> str_in word (normalize (info d))
              then []
              else [Dish (name d) (format_dish (normalize (info d))) ''has no danger words''])
           @ dishes (filter_menu_items (m\<lparr>dishes := post\<rparr>) safe_words danger_words)"
proof -
  have "kept safe_words danger_words d =
          (if \<exists>word\<in>set danger_words. str_in word (normalize (name d)) \<or> str_in word (normalize (info d))
           then []
           else [Dish (name d) (format_dish (normalize (info d))) ''has no danger words''])"
    using assms(2) by (simp add: kept_def list_ex_iff)
  then show ?thesis by (simp add: dishes_filter_menu_items assms(1))
qed

theorem danger_word_filtering_witness:
  "dishes scenario_menu = [veggie_burger] @ steak # [vegan_bowl] \<and>
   \<not> (\<exists>word\<in>set [''vegan'', ''vegetarian''].
      str_in word (normalize (name steak)) \<or> str_in word (normalize (info steak))) \<and>
   (\<exists>word\<in>set [''pork'', ''beef''].
      str_in word (normalize (name steak)) \<or> str_in word (normalize (info steak))) \<and>
   dishes (filter_menu_items scenario_menu [''vegan'', ''vegetarian''] [''pork'', ''beef'']) =
     [Dish ''Veggie Burger'' ''grilled patty'' ''has no danger words'',
      Dish ''Vegan Beef Bowl'' ''plant beef; vegan'' ''has safe word'']"
proof -
  have pre: "dishes scenario_menu = [veggie_burger] @ steak # [vegan_bowl]"
    by (simp add: scenario_menu_def)
  have safe: "\<not> (\<exists>word\<in>set [''vegan'', ''vegetarian''].
      str_in word (normalize (name steak)) \<or> str_in word (normalize (info steak)))"
    by code_simp
  have danger: "\<exists>word\<in>set [''pork'', ''beef''].
      str_in word (normalize (name steak)) \<or> str_in word (normalize (info steak))"
    by code_simp
  have before: "dishes (filter_menu_items (scenario_menu\<lparr>dishes := [veggie_burger]\<rparr>)
                  [''vegan'', ''vegetarian''] [''pork'', ''beef'']) =
                [Dish ''Veggie Burger'' ''grilled patty'' ''has no danger words'']"
    by code_simp
  have after: "dishes (filter_menu_items (scenario_menu\<lparr>dishes := [vegan_bowl]\<rparr>)
                  [''vegan'', ''vegetarian''] [''pork'', ''beef'']) =
               [Dish ''Vegan Beef Bowl'' ''plant beef; vegan'' ''has safe word'']"
    by code_simp
  from danger_word_filtering [OF pre safe, of "[''pork'', ''beef'']"]
  have "dishes (filter_menu_items scenario_menu [''vegan'', ''vegetarian''] [''pork'', ''beef'']) =
     [Dish ''Veggie Burger'' ''grilled patty'' ''has no danger words'',
      Dish ''Vegan Beef Bowl'' ''plant beef; vegan'' ''has safe word'']"
    by (simp only: before after danger if_True append.simps)
  with pre safe danger show ?thesis by (intro conjI)
qed

section \<open>C6: the filtered menu is a part of the original\<close>

text \<open>
  C6: the filtered menu has no more dishes than the original, every name in it is a name of
  the original, and the names come in the order of the original (they form a subsequence).
\<close>

theorem filter_menu_items_invariant:
  "length (dishes (filter_menu_items m safe_words danger_words)) \<le> length (dishes m) \<and>
   set (map name (dishes (filter_menu_items m safe_words danger_words))) \<subseteq> set (map name (dishes m)) \<and>
   subseq (map name (dishes (filter_menu_items m safe_words danger_words))) (map name (dishes m))"
proof -
  let ?out = "dishes (filter_menu_items m safe_words danger_words)"
  have sub: "subseq (map name ?out) (map name (dishes m))"
    by (simp only: dishes_filter_menu_items subseq_kept)
  from list_emb_length[OF sub] have "length ?out \<le> length (dishes m)" by simp
  moreover from list_emb_set[OF sub] have "set (map name ?out) \<subseteq> set (map name (dishes m))"
    by blast
  ultimately show ?thesis using sub by simp
qed

theorem filter_menu_items_invariant_witness:
  "length (dishes (filter_menu_items scenario_menu [''vegan'', ''vegetarian''] [''beef''])) \<le> 3 \<and>
   set (map name (dishes (filter_menu_items scenario_menu [''vegan'', ''vegetarian''] [''beef''])))
     \<subseteq> {''Veggie Burger'', ''Steak'', ''Vegan Beef Bowl''} \<and>
   subseq (map name (dishes (filter_menu_items scenario_menu [''vegan'', ''vegetarian''] [''beef''])))
     [''Veggie Burger'', ''Steak'', ''Vegan Beef Bowl'']"
proof -
  have len: "length (dishes scenario_menu) = 3"
    by (simp add: scenario_menu_def)
  have names: "map name (dishes scenario_menu) = [''Veggie Burger'', ''Steak'', ''Vegan Beef Bowl'']"
    by (simp add: scenario_menu_def veggie_burger_def steak_def vegan_bowl_def Dish_default_def Dish_def)
  have "set [''Veggie Burger'', ''Steak'', ''Vegan Beef Bowl''] =
          {''Veggie Burger'', ''Steak'', ''Vegan Beef Bowl''}"
    by simp
  with filter_menu_items_invariant [of scenario_menu "[''vegan'', ''vegetarian'']" "[''beef'']"]
  show ?thesis by (simp only: len names)
qed

section \<open>C10: an empty danger word\<close>

text \<open>
  C10: when the empty string is among the danger words, in particular when the danger words
  are the stripped lines of a source that has a line of whitespace only, the filtered menu
  consists of the dishes that match a safe word and of nothing else.
\<close>

theorem empty_danger_word_drops_all:
  assumes "[] \<in> set danger_words \<or>
           (\<exists>l\<in>set lines. (\<forall>c\<in>set l. isspace c) \<and> danger_words = map strip lines)"
  shows "dishes (filter_menu_items m safe_words danger_words) =
           map (\<lambda>d. Dish (name d) (format_dish (normalize (info d))) ''has safe word'')
             (filter (\<lambda>d. \<exists>word\<in>set safe_words.
                            str_in word (normalize (name d)) \<or> str_in word (normalize (info d)))
                (dishes m))"
proof -
  have "[] \<in> set danger_words"
    using assms
  proof
    assume "[] \<in> set danger_words" then show ?thesis .
  next
    assume "\<exists>l\<in>set lines. (\<forall>c\<in>set l. isspace c) \<and> danger_words = map strip lines"
    then obtain l where "l \<in> set lines" "strip l = []" "danger_words = map strip lines"
      using strip_blank by blast
    then show ?thesis by force
  qed
  then have "kept safe_words danger_words =
     (\<lambda>d. if \<exists>word\<in>set safe_words. str_in word (normalize (name d)) \<or> str_in word (normalize (info d))
      then [Dish (name d) (format_dish (normalize (info d))) ''has safe word''] else [])"
    by (intro ext kept_empty_danger)
  then show ?thesis by (simp add: dishes_filter_menu_items concat_map_if)
qed

theorem empty_danger_word_drops_all_witness:
  "([] \<in> set (map strip [''beef'' @ [newline], [newline]]) \<or>
    (\<exists>l\<in>set [''beef'' @ [newline], [newline]]. (\<forall>c\<in>set l. isspace c) \<and>
       map strip [''beef'' @ [newline], [newline]] = map strip [''beef'' @ [newline], [newline]])) \<and>
   map strip [''beef'' @ [newline], [newline]] = [''beef'', []] \<and>
   dishes (filter_menu_items scenario_menu [''vegan'', ''vegetarian'']
            (map strip [''beef'' @ [newline], [newline]])) =
     [Dish ''Vegan Beef Bowl'' ''plant beef; vegan'' ''has safe word'']"
proof -
  let ?lines = "[''beef'' @ [newline], [newline]]"
  have words: "map strip ?lines = [''beef'', []]"
    by code_simp
  then have hyp: "[] \<in> set (map strip ?lines) \<or>
    (\<exists>l\<in>set ?lines. (\<forall>c\<in>set l. isspace c) \<and> map strip ?lines = map strip ?lines)"
    by simp
  have out: "map (\<lambda>d. Dish (name d) (format_dish (normalize (info d))) ''has safe word'')
             (filter (\<lambda>d. \<exists>word\<in>set [''vegan'', ''vegetarian''].
                            str_in word (normalize (name d)) \<or> str_in word (normalize (info d)))
                (dishes scenario_menu)) =
             [Dish ''Vegan Beef Bowl'' ''plant beef; vegan'' ''has safe word'']"
    by code_simp
  from empty_danger_word_drops_all [OF hyp, of scenario_menu "[''vegan'', ''vegetarian'']"]
  have "dishes (filter_menu_items scenario_menu [''vegan'', ''vegetarian''] (map strip ?lines)) =
     [Dish ''Vegan Beef Bowl'' ''plant beef; vegan'' ''has safe word'']"
    by (simp only: out)
  with hyp words show ?thesis by (intro conjI)
qed

section \<open>C4: one dish per name\<close>

text \<open>
  C4, as stated: whenever a name occurs in more than one entry of the answer, the flattened
  menu has exactly one dish of that name. This fails when the entries are in a section the
  flattener skips: two entries named \<^verbatim>\<open>Cola\<close> in the section \<^verbatim>\<open>Drinks\<close> give a menu without
  any dish.
\<close>

theorem flattener_dedup_counterexample:
  "call_api drinks_world (build_menu_url scenario_restaurant) = Inr (Menus drinks_response) \<and>
   length (entries_named ''Cola'' drinks_response) = 2 \<and>
   snd (get_menu_items drinks_world scenario_restaurant) = Inr (Menu ''Green Leaf Cafe'') \<and>
   length (dishes_named ''Cola'' (Menu ''Green Leaf Cafe'')) = 0"
  by (simp add: call_api_def drinks_world_def world_of_def build_menu_url_def
      scenario_restaurant_def Restaurant_def drinks_response_def response_of_def cola_section_def
      entries_named_def all_entries_def get_menu_items_def flat_menu_of_def is_positive_def
      Menu_def dishes_named_def)

text \<open>
  C4, amended: for every answer and every name, the dishes of that name in the flattened menu
  are decided by the entries the flattener visits (those of the sections that are not beverage
  sections, under positive counts at the three levels). If an entry of that name is visited,
  there is exactly one such dish, and it carries the description of the first visited entry of
  that name, in lower case, stripped, without trailing periods; later entries of that name add
  nothing. If none is visited, there is no such dish.
\<close>

theorem flattener_dedup:
  assumes "call_api w (build_menu_url r) = Inr (Menus result)"
  shows "snd (get_menu_items w r) = Inr (flat_menu_of r result) \<and>
         dishes_named n (flat_menu_of r result) =
           (case find (\<lambda>e. entry_name e = n) (traversed_entries result) of
              None \<Rightarrow> []
            | Some e \<Rightarrow>
                [Dish_default n
                   (rstrip ''.'' (strip (lower (case entry_description e of None \<Rightarrow> [] | Some x \<Rightarrow> x))))])"
proof -
  have "dishes_named n (flat_menu_of r result) =
          (case find (\<lambda>e. entry_name e = n) (traversed_entries result) of
              None \<Rightarrow> []
            | Some e \<Rightarrow>
                [Dish_default n
                   (rstrip ''.'' (strip (lower (case entry_description e of None \<Rightarrow> [] | Some x \<Rightarrow> x))))])"
  proof (cases "find (\<lambda>e. entry_name e = n) (traversed_entries result)")
    case None
    then show ?thesis by (simp add: dishes_named_flat_menu_of)
  next
    case (Some e)
    then have "entry_name e = n" by (auto simp: find_Some_iff)
    with Some show ?thesis by (simp add: dishes_named_flat_menu_of dish_of_entry_def)
  qed
  then show ?thesis using get_menu_items_Menus[OF assms] by simp
qed

theorem flattener_dedup_witness:
  "call_api scenario_world (build_menu_url scenario_restaurant) = Inr (Menus scenario_response) \<and>
   length (entries_named ''Steak'' scenario_response) = 2 \<and>
   snd (get_menu_items scenario_world scenario_restaurant) =
     Inr (flat_menu_of scenario_restaurant scenario_response) \<and>
   dishes_named ''Steak'' (flat_menu_of scenario_restaurant scenario_response) =
     [Dish_default ''Steak'' ''grilled beef''] \<and>
   dishes_named ''Cola'' (flat_menu_of scenario_restaurant scenario_response) = []"
proof -
  have h: "call_api scenario_world (build_menu_url scenario_restaurant) = Inr (Menus scenario_response)"
    by (simp add: call_api_def scenario_world_def world_of_def build_menu_url_def)
  have twice: "length (entries_named ''Steak'' scenario_response) = 2"
    by code_simp
  have steak: "(case find (\<lambda>e. entry_name e = ''Steak'') (traversed_entries scenario_response) of
              None \<Rightarrow> []
            | Some e \<Rightarrow>
                [Dish_default ''Steak''
                   (rstrip ''.'' (strip (lower (case entry_description e of None \<Rightarrow> [] | Some x \<Rightarrow> x))))])
            = [Dish_default ''Steak'' ''grilled beef'']"
    by code_simp
  have cola: "(case find (\<lambda>e. entry_name e = ''Cola'') (traversed_entries scenario_response) of
              None \<Rightarrow> []
            | Some e \<Rightarrow>
                [Dish_default ''Cola''
                   (rstrip ''.'' (strip (lower (case entry_description e of None \<Rightarrow> [] | Some x \<Rightarrow> x))))])
            = []"
    by code_simp
  from flattener_dedup [OF h, of "''Steak''"] flattener_dedup [OF h, of "''Cola''"] h twice
  show ?thesis by (simp only: steak cola)
qed

section \<open>C5: beverage sections contribute nothing\<close>

text \<open>
  C5: the flattened menu does not depend on the beverage sections. Two answers that are the
  same once their sections named with \<^verbatim>\<open>Drinks\<close> or \<^verbatim>\<open>Beverages\<close> are removed flatten to
  the same menu, and every dish of the flattened menu is made from an entry of a section that
  is not a beverage section.
\<close>

theorem beverage_exclusion:
  assumes "call_api w (build_menu_url r) = Inr (Menus result)"
    and "call_api w' (build_menu_url r) = Inr (Menus result')"
    and "without_beverages result = without_beverages result'"
  shows "snd (get_menu_items w r) = Inr (flat_menu_of r result) \<and>
         snd (get_menu_items w' r) = snd (get_menu_items w r) \<and>
         (\<forall>d\<in>set (dishes (flat_menu_of r result)).
            \<exists>e\<in>set (non_beverage_entries result). d = dish_of_entry e)"
proof -
  have "flat_menu_of r result = flat_menu_of r (without_beverages result)"
    by (simp add: flat_menu_of_without_beverages)
  also have "\<dots> = flat_menu_of r (without_beverages result')"
    by (simp add: assms(3))
  also have "\<dots> = flat_menu_of r result'"
    by (simp add: flat_menu_of_without_beverages)
  finally have same: "flat_menu_of r result = flat_menu_of r result'" .
  have "\<exists>e\<in>set (non_beverage_entries result). d = dish_of_entry e"
    if "d \<in> set (dishes (flat_menu_of r result))" for d
  proof -
    from that obtain e where "e \<in> set (first_occurrences {} (traversed_entries result))"
      and d: "d = dish_of_entry e"
      by (auto simp: flat_menu_of_eq)
    then have "e \<in> set (non_beverage_entries result)"
      using set_first_occurrences set_traversed_entries by blast
    with d show ?thesis by blast
  qed
  then show ?thesis
    using get_menu_items_Menus[OF assms(1)] get_menu_items_Menus[OF assms(2)] same by simp
qed

theorem beverage_exclusion_witness:
  "call_api scenario_world (build_menu_url scenario_restaurant) = Inr (Menus scenario_response) \<and>
   call_api other_world (build_menu_url scenario_restaurant) = Inr (Menus other_response) \<and>
   without_beverages scenario_response = without_beverages other_response \<and>
   snd (get_menu_items other_world scenario_restaurant) =
     snd (get_menu_items scenario_world scenario_restaurant) \<and>
   dishes (flat_menu_of scenario_restaurant scenario_response) =
     [Dish_default ''Veggie Burger'' ''grilled patty'', Dish_default ''Steak'' ''grilled beef'',
      Dish_default ''Soup'' []]"
proof -
  have h: "call_api scenario_world (build_menu_url scenario_restaurant) = Inr (Menus scenario_response)"
    by (simp add: call_api_def scenario_world_def world_of_def build_menu_url_def)
  have h': "call_api other_world (build_menu_url scenario_restaurant) = Inr (Menus other_response)"
    by (simp add: call_api_def other_world_def world_of_def build_menu_url_def)
  have eq: "without_beverages scenario_response = without_beverages other_response"
    by code_simp
  have out: "dishes (flat_menu_of scenario_restaurant scenario_response) =
     [Dish_default ''Veggie Burger'' ''grilled patty'', Dish_default ''Steak'' ''grilled beef'',
      Dish_default ''Soup'' []]"
    by code_simp
  from beverage_exclusion [OF h h' eq] h h' eq out show ?thesis by simp
qed

section \<open>C7: the bulleted rendering\<close>

text \<open>
  C7, as stated: the rendering is the header and one line \<^verbatim>\<open>- dish: description\<close> for every
  dish. This fails for a dish whose description is empty: its line is \<^verbatim>\<open>- dish\<close>, without
  the colon and the space.
\<close>

theorem Menu_str_counterexample:
  "Menu_str salad_menu = ''*Green Leaf Cafe*'' @ [newline] @ ''- Salad'' @ [newline] \<and>
   bulleted_as_claimed salad_menu = ''*Green Leaf Cafe*'' @ [newline] @ ''- Salad: '' @ [newline] \<and>
   Menu_str salad_menu \<noteq> bulleted_as_claimed salad_menu"
  by (simp add: Menu_str_def bulleted_as_claimed_def salad_menu_def Dish_str_def Dish_default_def Dish_def)

text \<open>
  C7, amended: the rendering is the header line, the restaurant tag between asterisks,
  followed by one line per dish in menu order: \<^verbatim>\<open>- dish: description\<close> when the description
  is not empty, and \<^verbatim>\<open>- dish\<close> when it is. Every line ends with a newline.
\<close>

theorem Menu_str_shape:
  "Menu_str m =
     ''*'' @ restaurant m @ ''*'' @ [newline]
       @ concat (map (\<lambda>d. ''- '' @ (if info d = [] then name d else name d @ '': '' @ info d) @ [newline])
                   (dishes m))"
  by (rule Menu_str_eq)

theorem Menu_str_shape_witness:
  "Menu_str (filter_menu_items scenario_menu [''vegan'', ''vegetarian''] [''beef'']) =
     ''*Green Leaf Cafe*'' @ [newline]
     @ ''- Veggie Burger: grilled patty'' @ [newline]
     @ ''- Vegan Beef Bowl: plant beef; vegan'' @ [newline]"
proof -
  have r: "restaurant (filter_menu_items scenario_menu [''vegan'', ''vegetarian''] [''beef'']) = ''Green Leaf Cafe''"
    by code_simp
  have d: "dishes (filter_menu_items scenario_menu [''vegan'', ''vegetarian''] [''beef'']) =
     [Dish ''Veggie Burger'' ''grilled patty'' ''has no danger words'',
      Dish ''Vegan Beef Bowl'' ''plant beef; vegan'' ''has safe word'']"
    by code_simp
  show ?thesis
    using Menu_str_shape [of "filter_menu_items scenario_menu [''vegan'', ''vegetarian''] [''beef'']"]
    by (simp add: r d Dish_def)
qed

section \<open>C8: the size fallback\<close>

text \<open>
  C8: when the search gives at least one venue, the menu of the first one is fetched and has a
  dish, and the danger words are read, \<^verbatim>\<open>check_menu\<close> returns the simplified rendering
  \<^verbatim>\<open>Restaurant: dish1; dish2\<close> of the filtered menu if its bulleted rendering is longer than
  1600 characters, and the bulleted rendering otherwise.
\<close>

theorem size_fallback:
  assumes "call_api w (build_restaurant_search_url location query) = Inr (Venues (v # vs))"
    and "get_menu_items w (Restaurant (venue_id v) (venue_name v) (join [newline] (venue_formattedAddress v)))
           = (fx, Inr m)"
    and "dishes m \<noteq> []"
    and "files w ''meat_words.txt'' = Inr lines"
  shows "snd (check_menu w query location) =
           Inr (let result = filter_menu_items m [''vegan'', ''vegetarian''] (map strip lines)
                in if length (Menu_str result) > 1600
                   then restaurant result @ '': '' @ join ''; '' (map name (dishes result))
                   else Menu_str result)"
  using assms
  by (simp add: check_menu_def get_restaurants_def Let_def is_too_large_def
      TWILIO_MAXIMUM_MESSAGE_SIZE_def simplified_menu_def)

theorem size_fallback_witness:
  "call_api long_world (build_restaurant_search_url ''Irvine, CA'' ''Long'') = Inr (Venues (long_venue # [])) \<and>
   files long_world ''meat_words.txt'' = Inr meat_lines \<and>
   length long_name = 1600 \<and>
   snd (check_menu long_world ''Long'' ''Irvine, CA'') = Inr (long_name @ '': Veggie Burger; Soup'') \<and>
   snd (check_menu scenario_world ''Green Leaf'' ''Irvine, CA'') =
     Inr (''*Green Leaf Cafe*'' @ [newline] @ ''- Veggie Burger: grilled patty'' @ [newline]
          @ ''- Soup'' @ [newline])"
proof -
  let ?safe = "[''vegan'', ''vegetarian'']"
  have entries: "map dish_of_entry (first_occurrences {} (traversed_entries scenario_response)) =
     [Dish_default ''Veggie Burger'' ''grilled patty'', Dish_default ''Steak'' ''grilled beef'',
      Dish_default ''Soup'' []]"
    by code_simp
  have kept: "concat (map (kept ?safe (map strip meat_lines))
     [Dish_default ''Veggie Burger'' ''grilled patty'', Dish_default ''Steak'' ''grilled beef'',
      Dish_default ''Soup'' []]) =
     [Dish ''Veggie Burger'' ''grilled patty'' ''has no danger words'',
      Dish ''Soup'' [] ''has no danger words'']"
    by code_simp
  have res: "dishes (filter_menu_items (flat_menu_of r scenario_response) ?safe (map strip meat_lines)) =
     [Dish ''Veggie Burger'' ''grilled patty'' ''has no danger words'',
      Dish ''Soup'' [] ''has no danger words'']" for r
    by (simp only: dishes_filter_menu_items flat_menu_of_eq menu.select_convs entries kept)
  have rest: "restaurant (filter_menu_items (flat_menu_of r scenario_response) ?safe (map strip meat_lines)) =
     restaurant_name r" for r
    by (simp add: restaurant_filter_menu_items flat_menu_of_eq)
  have ne: "dishes (flat_menu_of r scenario_response) \<noteq> []" for r
    by (simp add: flat_menu_of_eq entries)
  let ?R = "Restaurant (venue_id long_venue) (venue_name long_venue)
              (join [newline] (venue_formattedAddress long_venue))"
  have s1: "call_api long_world (build_restaurant_search_url ''Irvine, CA'' ''Long'') =
              Inr (Venues (long_venue # []))"
    by (simp add: call_api_def long_world_def world_of_def build_restaurant_search_url_def)
  have m1: "get_menu_items long_world ?R =
              ([Api_call (build_menu_url ?R)], Inr (flat_menu_of ?R scenario_response))"
    by (rule get_menu_items_Menus)
       (simp add: call_api_def long_world_def world_of_def build_menu_url_def)
  have f1: "files long_world ''meat_words.txt'' = Inr meat_lines"
    by (simp add: long_world_def world_of_def)
  have name1: "restaurant_name ?R = long_name"
    by (simp add: Restaurant_def long_venue_def)
  have big: "length (Menu_str (filter_menu_items (flat_menu_of ?R scenario_response) ?safe
                                 (map strip meat_lines))) > 1600"
    by (simp add: Menu_str_eq rest name1 long_name_def)
  have long: "snd (check_menu long_world ''Long'' ''Irvine, CA'') = Inr (long_name @ '': Veggie Burger; Soup'')"
    using size_fallback [OF s1 m1 ne f1] big
    by (simp add: Let_def rest res name1 Dish_def)
  let ?S = "Restaurant (venue_id scenario_venue) (venue_name scenario_venue)
              (join [newline] (venue_formattedAddress scenario_venue))"
  have s2: "call_api scenario_world (build_restaurant_search_url ''Irvine, CA'' ''Green Leaf'') =
              Inr (Venues (scenario_venue # []))"
    by (simp add: call_api_def scenario_world_def world_of_def build_restaurant_search_url_def)
  have m2: "get_menu_items scenario_world ?S =
              ([Api_call (build_menu_url ?S)], Inr (flat_menu_of ?S scenario_response))"
    by (rule get_menu_items_Menus)
       (simp add: call_api_def scenario_world_def world_of_def build_menu_url_def)
  have f2: "files scenario_world ''meat_words.txt'' = Inr meat_lines"
    by (simp add: scenario_world_def world_of_def)
  have name2: "restaurant_name ?S = ''Green Leaf Cafe''"
    by (simp add: Restaurant_def scenario_venue_def)
  have str2: "Menu_str (filter_menu_items (flat_menu_of ?S scenario_response) ?safe (map strip meat_lines)) =
     ''*Green Leaf Cafe*'' @ [newline] @ ''- Veggie Burger: grilled patty'' @ [newline]
          @ ''- Soup'' @ [newline]"
    by (simp add: Menu_str_eq rest res name2 Dish_def)
  have short: "snd (check_menu scenario_world ''Green Leaf'' ''Irvine, CA'') =
     Inr (''*Green Leaf Cafe*'' @ [newline] @ ''- Veggie Burger: grilled patty'' @ [newline]
          @ ''- Soup'' @ [newline])"
    using size_fallback [OF s2 m2 ne f2]
    by (simp add: Let_def str2)
  have "length long_name = 1600" by (simp add: long_name_def)
  with s1 f1 long short show ?thesis by (intro conjI)
qed

section \<open>C9: no venue found\<close>

text \<open>
  C9: when the search succeeds with an empty list of venues, \<^verbatim>\<open>check_menu\<close> returns the
  message \<^verbatim>\<open>No Results Found\<close> and its only effect is the search request: no menu is
  fetched and no word list is opened.
\<close>

theorem zero_results_message:
  assumes "call_api w (build_restaurant_search_url location query) = Inr (Venues [])"
  shows "check_menu w query location =
           ([Api_call (build_restaurant_search_url location query)],
            Inr ''No Results Found: We could not find any restaurants with the text you sent. Please try again.'')"
  using assms by (simp add: check_menu_def get_restaurants_def no_results_message_def)

theorem zero_results_message_witness:
  "call_api empty_world (build_restaurant_search_url ''Irvine, CA'' ''Green Leaf'') = Inr (Venues []) \<and>
   check_menu empty_world ''Green Leaf'' ''Irvine, CA'' =
     ([Api_call (Search_url ''Irvine, CA'' ''Green Leaf'')],
      Inr ''No Results Found: We could not find any restaurants with the text you sent. Please try again.'')"
proof -
  have h: "call_api empty_world (build_restaurant_search_url ''Irvine, CA'' ''Green Leaf'') = Inr (Venues [])"
    by (simp add: call_api_def empty_world_def)
  from zero_results_message [OF h] h show ?thesis
    by (simp add: build_restaurant_search_url_def)
qed

end
